theory Spec2Isabelle
  imports Complex_Main "HOL-Library.Log_Nat"
begin

section \<open>JavaScript numbers\<close>

text \<open>
  Every number of the program is a JavaScript \<^verbatim>\<open>number\<close>, an IEEE 754 binary64 value: a
  finite value (a rational \<open>m * 2 ^ e\<close> with \<open>\<bar>m\<bar> < 2 ^ 53\<close> and \<open>- 1074 \<le> e \<le> 971\<close>),
  negative zero, an infinity, or NaN. \<open>Num 0\<close> is positive zero. The arithmetic operators
  compute the exact rational result and round it to the nearest representable value, ties
  to the even significand; a rounded magnitude of \<open>2 ^ 1024\<close> or more is an infinity.
\<close>

datatype number = NaN | PosInf | NegInf | NegZero | Num rat

text \<open>\<open>ilog2 q\<close> is the binary exponent of a positive rational: \<open>2 ^ ilog2 q \<le> q < 2 ^ (ilog2 q + 1)\<close>.\<close>

definition ilog2 :: "rat \<Rightarrow> int" where
  "ilog2 q = (if 1 \<le> q then int (floorlog 2 (nat \<lfloor>q\<rfloor>)) - 1
              else - int (floorlog 2 (nat (\<lceil>1 / q\<rceil> - 1))))"

text \<open>Rounding to the nearest integer, ties to the even one.\<close>

definition round_even :: "rat \<Rightarrow> int" where
  "round_even q = (let f = \<lfloor>q\<rfloor>; d = q - of_int f in
     if d < 1 / 2 then f else if 1 / 2 < d then f + 1 else if even f then f else f + 1)"

text \<open>
  The exponent of the unit in the last place at \<open>q\<close>: 53 significant bits in the normal
  range, the fixed exponent \<open>- 1074\<close> in the subnormal range.
\<close>

definition quantum :: "rat \<Rightarrow> int" where
  "quantum q = max (ilog2 \<bar>q\<bar> - 52) (- 1074)"

definition rnd :: "rat \<Rightarrow> rat" where
  "rnd q = (if q = 0 then 0
            else of_int (round_even (q / 2 powi quantum q)) * 2 powi quantum q)"

definition signed_zero :: "bool \<Rightarrow> number" where
  "signed_zero s = (if s then NegZero else Num 0)"

definition signed_inf :: "bool \<Rightarrow> number" where
  "signed_inf s = (if s then NegInf else PosInf)"

text \<open>The result of an operation whose exact value is the nonzero rational \<open>q\<close>.\<close>

definition to_number :: "rat \<Rightarrow> number" where
  "to_number q =
     (if rnd q = 0 then signed_zero (q < 0)
      else if 1024 \<le> ilog2 \<bar>rnd q\<bar> then signed_inf (q < 0)
      else Num (rnd q))"

fun val :: "number \<Rightarrow> rat" where
  "val (Num q) = q"
| "val _ = 0"

fun negative :: "number \<Rightarrow> bool" where
  "negative (Num q) = (q < 0)"
| "negative NegZero = True"
| "negative NegInf = True"
| "negative _ = False"

fun is_inf :: "number \<Rightarrow> bool" where
  "is_inf PosInf = True"
| "is_inf NegInf = True"
| "is_inf _ = False"

fun is_zero :: "number \<Rightarrow> bool" where
  "is_zero NegZero = True"
| "is_zero (Num q) = (q = 0)"
| "is_zero _ = False"

fun is_fin :: "number \<Rightarrow> bool" where
  "is_fin (Num q) = True"
| "is_fin NegZero = True"
| "is_fin _ = False"

text \<open>Unary minus.\<close>

fun js_neg :: "number \<Rightarrow> number" where
  "js_neg NaN = NaN"
| "js_neg PosInf = NegInf"
| "js_neg NegInf = PosInf"
| "js_neg NegZero = Num 0"
| "js_neg (Num q) = (if q = 0 then NegZero else Num (- q))"

text \<open>The operator \<^verbatim>\<open>+\<close> on numbers.\<close>

definition js_add :: "number \<Rightarrow> number \<Rightarrow> number" where
  "js_add a b =
     (if a = NaN \<or> b = NaN then NaN
      else if is_inf a \<or> is_inf b then
        (if is_inf a \<and> is_inf b \<and> a \<noteq> b then NaN else if is_inf a then a else b)
      else if val a + val b = 0 then signed_zero (negative a \<and> negative b)
      else to_number (val a + val b))"

text \<open>The operator \<^verbatim>\<open>-\<close>: IEEE 754 subtraction is addition of the negated operand.\<close>

definition js_sub :: "number \<Rightarrow> number \<Rightarrow> number" where
  "js_sub a b = js_add a (js_neg b)"

text \<open>The operator \<^verbatim>\<open>*\<close>.\<close>

definition js_mul :: "number \<Rightarrow> number \<Rightarrow> number" where
  "js_mul a b =
     (if a = NaN \<or> b = NaN then NaN
      else if is_inf a \<or> is_inf b then
        (if is_zero a \<or> is_zero b then NaN else signed_inf (negative a \<noteq> negative b))
      else if val a * val b = 0 then signed_zero (negative a \<noteq> negative b)
      else to_number (val a * val b))"

text \<open>The operator \<^verbatim>\<open>/\<close>.\<close>

definition js_div :: "number \<Rightarrow> number \<Rightarrow> number" where
  "js_div a b =
     (if a = NaN \<or> b = NaN then NaN
      else if is_inf a then
        (if is_inf b then NaN else signed_inf (negative a \<noteq> negative b))
      else if is_inf b then signed_zero (negative a \<noteq> negative b)
      else if is_zero b then
        (if is_zero a then NaN else signed_inf (negative a \<noteq> negative b))
      else if is_zero a then signed_zero (negative a \<noteq> negative b)
      else to_number (val a / val b))"

section \<open>The visualizer's model\<close>

text \<open>A point \<^verbatim>\<open>{x: ..., y: ...}\<close>.\<close>

record point =
  px :: number
  py :: number

text \<open>The three \<^verbatim>\<open>useState\<close> cells of \<^verbatim>\<open>LinearSystemVisualizer\<close>.\<close>

record state =
  bScalar :: number
  lambda1 :: number
  lambda2 :: number

definition initial_state :: state where
  "initial_state = \<lparr>bScalar = Num 3, lambda1 = Num 1, lambda2 = js_neg (Num 2)\<rparr>"

text \<open>
  The setters, called by the sliders' \<^verbatim>\<open>onChange\<close> handlers with the parsed value of the
  control.
\<close>

definition setBScalar :: "number \<Rightarrow> state \<Rightarrow> state" where
  "setBScalar v st = st\<lparr>bScalar := v\<rparr>"

definition setLambda1 :: "number \<Rightarrow> state \<Rightarrow> state" where
  "setLambda1 v st = st\<lparr>lambda1 := v\<rparr>"

definition setLambda2 :: "number \<Rightarrow> state \<Rightarrow> state" where
  "setLambda2 v st = st\<lparr>lambda2 := v\<rparr>"

definition VIEWBOX_SIZE :: number where
  "VIEWBOX_SIZE = Num 20"

definition SCALE :: number where
  "SCALE = Num 40"

definition ORIGIN :: number where
  "ORIGIN = js_div VIEWBOX_SIZE (Num 2)"

definition toSvg :: "number \<Rightarrow> number \<Rightarrow> point" where
  "toSvg x y = \<lparr>px = js_mul (js_add ORIGIN x) SCALE, py = js_mul (js_sub ORIGIN y) SCALE\<rparr>"

definition transform :: "number \<Rightarrow> number \<Rightarrow> point" where
  "transform x y =
     \<lparr>px = js_add (js_mul (Num 1) x) (js_mul (Num (1 / 2)) y),
      py = js_add (js_mul (Num (1 / 2)) x) (js_mul (Num (1 / 4)) y)\<rparr>"

definition xp :: "state \<Rightarrow> point" where
  "xp st = \<lparr>px = bScalar st, py = Num 0\<rparr>"

definition nullBasis :: point where
  "nullBasis = \<lparr>px = js_neg (Num (1 / 2)), py = Num 1\<rparr>"

definition x1 :: "state \<Rightarrow> point" where
  "x1 st = \<lparr>px = js_add (px (xp st)) (js_mul (lambda1 st) (px nullBasis)),
            py = js_add (py (xp st)) (js_mul (lambda1 st) (py nullBasis))\<rparr>"

definition x2 :: "state \<Rightarrow> point" where
  "x2 st = \<lparr>px = js_add (px (xp st)) (js_mul (lambda2 st) (px nullBasis)),
            py = js_add (py (xp st)) (js_mul (lambda2 st) (py nullBasis))\<rparr>"

definition diff :: "state \<Rightarrow> point" where
  "diff st = \<lparr>px = js_sub (px (x1 st)) (px (x2 st)), py = js_sub (py (x1 st)) (py (x2 st))\<rparr>"

definition bVec :: "state \<Rightarrow> point" where
  "bVec st = transform (px (xp st)) (py (xp st))"

definition bFromX1 :: "state \<Rightarrow> point" where
  "bFromX1 st = transform (px (x1 st)) (py (x1 st))"

definition bFromX2 :: "state \<Rightarrow> point" where
  "bFromX2 st = transform (px (x2 st)) (py (x2 st))"

definition mappedDiff :: "state \<Rightarrow> point" where
  "mappedDiff st = transform (px (diff st)) (py (diff st))"

section \<open>Ranges and tolerances of the statements\<close>

text \<open>
  A finite number \<open>a\<close> lies within \<open>d\<close> of the exact rational \<open>v\<close>; two finite numbers lie
  within \<open>d\<close> of each other.
\<close>

definition approx :: "number \<Rightarrow> rat \<Rightarrow> rat \<Rightarrow> bool" where
  "approx a v d \<longleftrightarrow> is_fin a \<and> v - d \<le> val a \<and> val a \<le> v + d"

definition close_to :: "number \<Rightarrow> number \<Rightarrow> rat \<Rightarrow> bool" where
  "close_to a b d \<longleftrightarrow> is_fin a \<and> is_fin b \<and> val b - d \<le> val a \<and> val a \<le> val b + d"

text \<open>
  The three range controls have \<^verbatim>\<open>min="-4" max="4"\<close>: every value they deliver is a finite
  number between \<open>- 4\<close> and \<open>4\<close>.
\<close>

definition slider :: "number \<Rightarrow> bool" where
  "slider v \<longleftrightarrow> is_fin v \<and> - 4 \<le> val v \<and> val v \<le> 4"

text \<open>
  The view box is \<open>VIEWBOX_SIZE = 20\<close> units wide and centred at the origin: the visible
  mathematical coordinates are those between \<open>- 10\<close> and \<open>10\<close>.
\<close>

definition visible :: "number \<Rightarrow> bool" where
  "visible v \<longleftrightarrow> is_fin v \<and> - 10 \<le> val v \<and> val v \<le> 10"

text \<open>
  A representable number that is zero or of magnitude between \<open>2 ^ - 1000\<close> and \<open>2 ^ 1000\<close>, far
  from the subnormal range and from overflow.
\<close>

definition ordinary :: "number \<Rightarrow> bool" where
  "ordinary a \<longleftrightarrow> is_fin a \<and> rnd (val a) = val a
     \<and> (val a = 0 \<or> 2 powi (- 1000) \<le> \<bar>val a\<bar> \<and> \<bar>val a\<bar> \<le> 2 powi 1000)"

text \<open>
  An upper bound of the error of one rounding of a value of magnitude at most 1024 (half a
  unit in the last place there).
\<close>

definition tol :: rat where
  "tol = 1 / 2 ^ 43"


section \<open>Binary exponents and rounding\<close>

lemma two_powi_pos: "0 < (2::rat) powi k"
  by simp

lemma two_powi_le: "k \<le> l \<Longrightarrow> (2::rat) powi k \<le> 2 powi l"
  by (rule power_int_increasing) simp_all

lemma two_powi_less: "k < l \<Longrightarrow> (2::rat) powi k < 2 powi l"
  by (rule power_int_strict_increasing) simp_all

lemma two_powi_Suc: "(2::rat) powi (k + 1) = 2 * 2 powi k"
  by (simp add: power_int_add)

lemma ilog2_bounds:
  assumes "0 < q"
  shows "2 powi (ilog2 q) \<le> q \<and> q < 2 powi (ilog2 q + 1)"
proof (cases "1 \<le> q")
  case True
  define n where "n = nat \<lfloor>q\<rfloor>"
  define k where "k = floorlog 2 n"
  have n1: "0 < n" using True by (simp add: n_def)
  have b: "2 ^ (k - 1) \<le> n \<and> n < 2 ^ k"
    unfolding k_def using floorlog_bounds [of n 2] n1 by simp
  have k1: "1 \<le> k" using b n1 by (cases k) auto
  have il: "ilog2 q = int k - 1" using True by (simp add: ilog2_def n_def k_def)
  have nq: "rat_of_nat n \<le> q \<and> q < rat_of_nat n + 1"
    using True unfolding n_def by (simp add: of_nat_nat) linarith
  have lo: "(2::rat) powi (int k - 1) = 2 ^ (k - 1)"
    using k1 by (simp add: power_int_def nat_diff_distrib')
  have hi: "(2::rat) powi (int k - 1 + 1) = 2 ^ k"
    by (simp add: power_int_def)
  have "(2::rat) ^ (k - 1) \<le> rat_of_nat n"
    using b by (metis of_nat_le_iff of_nat_numeral of_nat_power)
  moreover have "rat_of_nat n + 1 \<le> 2 ^ k"
  proof -
    have "n + 1 \<le> 2 ^ k" using b by simp
    then have "rat_of_nat (n + 1) \<le> rat_of_nat (2 ^ k)" by (simp only: of_nat_le_iff)
    then show ?thesis by simp
  qed
  ultimately have "(2::rat) ^ (k - 1) \<le> q \<and> q < 2 ^ k" using nq by linarith
  then show ?thesis unfolding il lo hi .
next
  case False
  define r where "r = 1 / q"
  define n where "n = \<lceil>r\<rceil>"
  define j where "j = floorlog 2 (nat (n - 1))"
  have r1: "1 < r" using False assms by (simp add: r_def)
  have n2: "2 \<le> n" using r1 unfolding n_def by linarith
  have rn: "of_int n - 1 < r \<and> r \<le> of_int n" unfolding n_def by linarith
  have b: "2 ^ (j - 1) \<le> nat (n - 1) \<and> nat (n - 1) < 2 ^ j"
    unfolding j_def using floorlog_bounds [of "nat (n - 1)" 2] n2 by simp
  have j1: "1 \<le> j" using b n2 by (cases j) auto
  have il: "ilog2 q = - int j" using False by (simp add: ilog2_def n_def j_def r_def)
  have up: "of_int n \<le> (2::rat) ^ j"
  proof -
    have "n - 1 < 2 ^ j" using b n2 by (simp add: nat_less_iff)
    then have "n \<le> 2 ^ j" by simp
    then have "(of_int n :: rat) \<le> of_int (2 ^ j)" by (simp only: of_int_le_iff)
    then show ?thesis by simp
  qed
  have dn: "(2::rat) ^ (j - 1) \<le> of_int n - 1"
  proof -
    have "2 ^ (j - 1) \<le> n - 1" using b n2 by (simp add: le_nat_iff)
    then have "(of_int (2 ^ (j - 1)) :: rat) \<le> of_int (n - 1)" by (simp only: of_int_le_iff)
    then show ?thesis by simp
  qed
  have qr: "q = 1 / r" using assms by (simp add: r_def)
  have lo: "(2::rat) powi (- int j) = 1 / 2 ^ j"
    by (simp add: power_int_minus field_simps)
  have hi: "(2::rat) powi (- int j + 1) = 1 / 2 ^ (j - 1)"
  proof -
    have e: "- int j + 1 = - int (j - 1)" using j1 by linarith
    show ?thesis unfolding e
      by (simp only: power_int_minus power_int_of_nat inverse_eq_divide)
  qed
  have r0: "0 < r" using r1 by linarith
  have rj: "r \<le> 2 ^ j" using up rn by linarith
  have jr: "2 ^ (j - 1) < r" using dn rn by linarith
  have "1 / 2 ^ j \<le> 1 / r" using rj r0 by (simp add: field_simps)
  moreover have "1 / r < 1 / 2 ^ (j - 1)" using jr r0 by (simp add: field_simps)
  ultimately have "1 / (2::rat) ^ j \<le> q \<and> q < 1 / 2 ^ (j - 1)" using qr by simp
  then show ?thesis unfolding il lo hi .
qed

lemma ilog2_unique:
  assumes "0 < q" "2 powi k \<le> q" "q < 2 powi (k + 1)"
  shows "ilog2 q = k"
proof -
  have b: "2 powi (ilog2 q) \<le> q \<and> q < 2 powi (ilog2 q + 1)"
    using ilog2_bounds [OF assms(1)] .
  have "2 powi k < (2::rat) powi (ilog2 q + 1)" using assms b by linarith
  then have "k < ilog2 q + 1" using two_powi_le [of "ilog2 q + 1" k] by (cases "k < ilog2 q + 1") auto
  moreover have "2 powi (ilog2 q) < (2::rat) powi (k + 1)" using assms b by linarith
  then have "ilog2 q < k + 1" using two_powi_le [of "k + 1" "ilog2 q"] by (cases "ilog2 q < k + 1") auto
  ultimately show ?thesis by simp
qed

lemma ilog2_less:
  assumes "0 < q" "q < 2 powi (k + 1)"
  shows "ilog2 q \<le> k"
proof -
  have "2 powi (ilog2 q) < (2::rat) powi (k + 1)"
    using ilog2_bounds [OF assms(1)] assms(2) by linarith
  then have "ilog2 q < k + 1"
    using two_powi_le [of "k + 1" "ilog2 q"] by (cases "ilog2 q < k + 1") auto
  then show ?thesis by simp
qed

lemma ilog2_ge:
  assumes "2 powi k \<le> q"
  shows "k \<le> ilog2 q"
proof -
  have q: "0 < q" using assms two_powi_pos [of k] by linarith
  have "2 powi k < (2::rat) powi (ilog2 q + 1)"
    using ilog2_bounds [OF q] assms by linarith
  then have "k < ilog2 q + 1"
    using two_powi_le [of "ilog2 q + 1" k] by (cases "k < ilog2 q + 1") auto
  then show ?thesis by simp
qed

lemma ilog2_mono:
  assumes "0 < q" "q \<le> q'"
  shows "ilog2 q \<le> ilog2 q'"
proof -
  have "2 powi (ilog2 q) \<le> q'" using ilog2_bounds [OF assms(1)] assms(2) by linarith
  then show ?thesis by (rule ilog2_ge)
qed

lemma ilog2_scale:
  assumes "0 < q"
  shows "ilog2 (q * 2 powi k) = ilog2 q + k"
proof (rule ilog2_unique)
  note b = ilog2_bounds [OF assms]
  show "0 < q * 2 powi k" using assms by simp
  have "2 powi (ilog2 q) * 2 powi k \<le> q * (2::rat) powi k"
    using b by (intro mult_right_mono) simp_all
  then show "2 powi (ilog2 q + k) \<le> q * 2 powi k" by (simp add: power_int_add)
  have "q * 2 powi k < 2 powi (ilog2 q + 1) * (2::rat) powi k"
    using b by (intro mult_strict_right_mono) simp_all
  then show "q * 2 powi k < 2 powi (ilog2 q + k + 1)" by (simp add: power_int_add mult_ac)
qed

lemma round_even_error: "\<bar>of_int (round_even q) - q\<bar> \<le> 1 / 2"
proof -
  have "of_int \<lfloor>q\<rfloor> \<le> q \<and> q < of_int \<lfloor>q\<rfloor> + 1" by linarith
  then show ?thesis by (auto simp: round_even_def Let_def)
qed

lemma round_even_of_int [simp]: "round_even (of_int m) = m"
  by (simp add: round_even_def)

lemma round_even_numeral [simp]: "round_even (numeral v) = numeral v"
  using round_even_of_int [of "numeral v"] by simp

lemma round_even_near:
  assumes "of_int n - 1 / 2 < q" "q < of_int n + 1 / 2"
  shows "round_even q = n"
proof (cases "of_int n \<le> q")
  case True
  then have "\<lfloor>q\<rfloor> = n" using assms by (intro floor_unique) linarith+
  then show ?thesis using assms by (simp add: round_even_def)
next
  case False
  then have "\<lfloor>q\<rfloor> = n - 1" using assms by (intro floor_unique) (simp; linarith)+
  then show ?thesis using assms False by (simp add: round_even_def)
qed

lemma round_even_tie:
  assumes "q = of_int n + 1 / 2"
  shows "round_even q = (if even n then n else n + 1)"
proof -
  have "\<lfloor>q\<rfloor> = n" unfolding assms by (intro floor_unique) simp_all
  then show ?thesis by (simp add: round_even_def assms)
qed

lemma round_even_floor: "round_even q = \<lfloor>q\<rfloor> \<or> round_even q = \<lfloor>q\<rfloor> + 1"
  by (simp add: round_even_def Let_def)

lemma round_even_mono:
  assumes "q \<le> q'"
  shows "round_even q \<le> round_even q'"
proof (cases "\<lfloor>q\<rfloor> = \<lfloor>q'\<rfloor>")
  case True
  have "q - of_int \<lfloor>q'\<rfloor> \<le> q' - of_int \<lfloor>q'\<rfloor>" using assms by simp
  then show ?thesis by (auto simp: round_even_def Let_def True)
next
  case False
  then have "\<lfloor>q\<rfloor> < \<lfloor>q'\<rfloor>" using floor_mono [OF assms] by linarith
  moreover have "\<lfloor>q'\<rfloor> \<le> round_even q'" using round_even_floor [of q'] by auto
  moreover have "round_even q \<le> \<lfloor>q\<rfloor> + 1" using round_even_floor [of q] by auto
  ultimately show ?thesis by linarith
qed

lemma round_even_minus: "round_even (- q) = - round_even q"
proof (cases "q = of_int \<lfloor>q\<rfloor>")
  case True
  then obtain m where "q = of_int m" ..
  then have "round_even q = m" "round_even (- q) = - m"
    using round_even_of_int [of "- m"] by simp_all
  then show ?thesis by simp
next
  case False
  define f where "f = \<lfloor>q\<rfloor>"
  have b: "of_int f < q" "q < of_int f + 1" using False unfolding f_def by linarith+
  have fl: "\<lfloor>- q\<rfloor> = - f - 1" using b by (intro floor_unique) simp_all
  show ?thesis using b
    by (auto simp: round_even_def Let_def fl f_def [symmetric])
qed

lemma rnd_zero [simp]: "rnd 0 = 0"
  by (simp add: rnd_def)

lemma rnd_quantum: "q \<noteq> 0 \<Longrightarrow> rnd q = of_int (round_even (q / 2 powi quantum q)) * 2 powi quantum q"
  by (simp add: rnd_def)

lemma rnd_error: "\<bar>rnd q - q\<bar> \<le> 2 powi (quantum q) / 2"
proof (cases "q = 0")
  case True
  then show ?thesis by (simp add: rnd_def)
next
  case False
  define e where "e = quantum q"
  define t where "t = q / 2 powi e"
  have q: "q = t * 2 powi e" by (simp add: t_def)
  have r: "rnd q = of_int (round_even t) * 2 powi e"
    using False by (simp add: rnd_def e_def t_def)
  have "rnd q - q = of_int (round_even t) * 2 powi e - t * 2 powi e"
    using r q by simp
  then have "rnd q - q = (of_int (round_even t) - t) * 2 powi e"
    by (simp add: algebra_simps)
  then have "\<bar>rnd q - q\<bar> = \<bar>of_int (round_even t) - t\<bar> * 2 powi e"
    by (simp add: abs_mult)
  also have "\<dots> \<le> (1 / 2) * 2 powi e"
    by (rule mult_right_mono [OF round_even_error]) simp
  finally show ?thesis by (simp add: e_def)
qed

lemma quantum_le:
  assumes "q \<noteq> 0" "\<bar>q\<bar> < 2 powi (k + 1)" "- 1022 \<le> k"
  shows "quantum q \<le> k - 52"
proof -
  have "ilog2 \<bar>q\<bar> \<le> k" using assms by (intro ilog2_less) auto
  then show ?thesis using assms(3) by (simp add: quantum_def)
qed

lemma rnd_tol:
  assumes "\<bar>q\<bar> \<le> 1024"
  shows "\<bar>rnd q - q\<bar> \<le> tol"
proof (cases "q = 0")
  case True
  then show ?thesis by (simp add: rnd_def tol_def)
next
  case False
  have "\<bar>q\<bar> < 2 powi (10 + 1)" using assms by simp
  then have "quantum q \<le> 10 - 52" using False by (intro quantum_le) auto
  then have "(2::rat) powi (quantum q) \<le> 2 powi (- 42)" by (intro two_powi_le) simp
  then have "(2::rat) powi (quantum q) / 2 \<le> tol" by (simp add: tol_def power_int_minus)
  then show ?thesis using rnd_error [of q] by linarith
qed

lemma rnd_bounds:
  assumes "- 1024 \<le> q" "q \<le> 1024"
  shows "q - tol \<le> rnd q" "rnd q \<le> q + tol"
proof -
  have "\<bar>q\<bar> \<le> 1024" using assms by linarith
  then have "\<bar>rnd q - q\<bar> \<le> tol" by (rule rnd_tol)
  then show "q - tol \<le> rnd q" "rnd q \<le> q + tol" by linarith+
qed

lemma rnd_eval:
  assumes "q \<noteq> 0" "2 powi k \<le> \<bar>q\<bar>" "\<bar>q\<bar> < 2 powi (k + 1)"
  shows "rnd q = of_int (round_even (q / 2 powi (max (k - 52) (- 1074))))
                  * 2 powi (max (k - 52) (- 1074))"
proof -
  have "ilog2 \<bar>q\<bar> = k" using assms by (intro ilog2_unique) auto
  then show ?thesis using assms(1) by (simp add: rnd_def quantum_def)
qed

lemma mant_bound:
  assumes "\<bar>m\<bar> < 2 ^ 53"
  shows "\<bar>rat_of_int m * 2 powi e\<bar> < 2 powi (e + 52 + 1)"
proof -
  have "rat_of_int \<bar>m\<bar> < rat_of_int (2 ^ 53)" using assms by (simp only: of_int_less_iff)
  then have "\<bar>rat_of_int m\<bar> < 2 ^ 53" by simp
  then have a: "\<bar>rat_of_int m\<bar> * 2 powi e < 2 ^ 53 * 2 powi e"
    by (intro mult_strict_right_mono) simp_all
  have "(2::rat) powi (53 + e) = 2 powi 53 * 2 powi e"
    by (rule power_int_add) simp
  moreover have "(2::rat) powi 53 = 2 ^ 53" by simp
  moreover have "e + 52 + 1 = 53 + e" by simp
  ultimately have b: "(2::rat) powi (e + 52 + 1) = 2 ^ 53 * 2 powi e"
    by (simp only:)
  have c: "\<bar>rat_of_int m * 2 powi e\<bar> = \<bar>rat_of_int m\<bar> * 2 powi e"
    by (simp add: abs_mult)
  show ?thesis unfolding b c by (rule a)
qed

lemma rnd_exact:
  assumes q: "q = of_int m * 2 powi e" and e: "- 1074 \<le> e" and m: "\<bar>m\<bar> < 2 ^ 53"
  shows "rnd q = q"
proof (cases "q = 0")
  case True
  then show ?thesis by (simp add: rnd_def)
next
  case False
  define e' where "e' = quantum q"
  have "\<bar>q\<bar> < 2 powi (e + 52 + 1)" unfolding q using m by (rule mant_bound)
  then have "ilog2 \<bar>q\<bar> \<le> e + 52" using False by (intro ilog2_less) auto
  then have le: "e' \<le> e" using e by (simp add: e'_def quantum_def)
  define n where "n = nat (e - e')"
  have "(2::rat) powi e = 2 powi (e' + int n)" using le by (simp add: n_def)
  also have "\<dots> = 2 powi e' * 2 ^ n" by (simp add: power_int_add)
  finally have pe: "(2::rat) powi e = 2 powi e' * 2 ^ n" .
  have "q / 2 powi e' = of_int m * 2 ^ n" by (simp add: q pe)
  also have "\<dots> = of_int (m * 2 ^ n)" by simp
  finally have "round_even (q / 2 powi e') = m * 2 ^ n" by (simp only: round_even_of_int)
  then have "rnd q = of_int (m * 2 ^ n) * 2 powi e'"
    using False by (simp add: rnd_def e'_def)
  also have "\<dots> = q" by (simp add: q pe)
  finally show ?thesis .
qed

lemma rnd_scale:
  assumes n: "q \<noteq> 0" and l: "- 1022 \<le> ilog2 \<bar>q\<bar>" "- 1022 \<le> ilog2 \<bar>q\<bar> + k"
  shows "rnd (q * 2 powi k) = rnd q * 2 powi k"
proof -
  define i where "i = ilog2 \<bar>q\<bar>"
  have "ilog2 \<bar>q * 2 powi k\<bar> = i + k"
    using ilog2_scale [of "\<bar>q\<bar>" k] n by (simp add: abs_mult i_def)
  then have q2: "quantum (q * 2 powi k) = i - 52 + k" using l by (simp add: quantum_def i_def)
  have q1: "quantum q = i - 52" using l by (simp add: quantum_def i_def)
  have "(2::rat) powi (i - 52 + k) = 2 powi (i - 52) * 2 powi k" by (simp add: power_int_add)
  then have d: "q * 2 powi k / 2 powi (i - 52 + k) = q / 2 powi (i - 52)" by simp
  have "rnd (q * 2 powi k) = of_int (round_even (q / 2 powi (i - 52))) * 2 powi (i - 52 + k)"
    using n by (simp add: rnd_def q2 d)
  also have "\<dots> = of_int (round_even (q / 2 powi (i - 52))) * 2 powi (i - 52) * 2 powi k"
    by (simp add: power_int_add)
  also have "\<dots> = rnd q * 2 powi k" using n by (simp add: rnd_def q1)
  finally show ?thesis .
qed

lemma rnd_grid:
  assumes r: "rnd a = a" and k: "2 powi k \<le> \<bar>a\<bar>" "- 1022 \<le> k"
  shows "\<exists>m. a = of_int m * 2 powi (k - 52)"
proof -
  have n: "a \<noteq> 0"
  proof
    assume "a = 0"
    then have "2 powi k \<le> (0::rat)" using k(1) by simp
    then show False using two_powi_pos [of k] by linarith
  qed
  define e where "e = quantum a"
  have "k \<le> ilog2 \<bar>a\<bar>" using k(1) by (rule ilog2_ge)
  then have le: "k - 52 \<le> e" by (simp add: e_def quantum_def)
  define j where "j = nat (e - (k - 52))"
  have "(2::rat) powi e = 2 powi (int j + (k - 52))" using le by (simp add: j_def)
  also have "\<dots> = 2 ^ j * 2 powi (k - 52)" by (simp add: power_int_add)
  finally have pe: "(2::rat) powi e = 2 ^ j * 2 powi (k - 52)" .
  have "a = of_int (round_even (a / 2 powi e)) * 2 powi e"
    using r n by (simp add: rnd_def e_def)
  also have "\<dots> = of_int (round_even (a / 2 powi e) * 2 ^ j) * 2 powi (k - 52)"
    by (simp add: pe)
  finally show ?thesis by blast
qed

lemma rnd_mono_pos:
  assumes q: "0 < q" and le: "q \<le> q'"
  shows "rnd q \<le> rnd q'"
proof -
  define e where "e = quantum q"
  define e' where "e' = quantum q'"
  have q': "0 < q'" using q le by linarith
  have il: "ilog2 q \<le> ilog2 q'" using q le by (rule ilog2_mono)
  have ee: "e \<le> e'" using il q q' by (simp add: e_def e'_def quantum_def)
  have r: "rnd q = of_int (round_even (q / 2 powi e)) * 2 powi e"
    using q by (simp add: rnd_quantum e_def)
  have r': "rnd q' = of_int (round_even (q' / 2 powi e')) * 2 powi e'"
    using q' by (simp add: rnd_quantum e'_def)
  show ?thesis
  proof (cases "e = e'")
    case True
    have "q / 2 powi e \<le> q' / 2 powi e" using le by (simp add: divide_right_mono)
    then have "round_even (q / 2 powi e) \<le> round_even (q' / 2 powi e)" by (rule round_even_mono)
    then have "rat_of_int (round_even (q / 2 powi e)) \<le> rat_of_int (round_even (q' / 2 powi e))"
      by (simp only: of_int_le_iff)
    then show ?thesis unfolding r r' True [symmetric] by (intro mult_right_mono) simp_all
  next
    case False
    then have lt: "e < e'" using ee by simp
    define B :: rat where "B = 2 powi (e' + 52)"
    have "- 1074 \<le> e" by (simp add: e_def quantum_def)
    then have "- 1074 < e'" using lt by linarith
    then have e'1: "e' = ilog2 q' - 52" using q' by (simp add: e'_def quantum_def max_def split: if_splits)
    have "ilog2 q - 52 \<le> e" using q by (simp add: e_def quantum_def)
    then have i1: "ilog2 q + 1 \<le> e' + 52" using lt by linarith
    have qB: "q < B"
    proof -
      have "q < 2 powi (ilog2 q + 1)" using ilog2_bounds [OF q] by simp
      also have "\<dots> \<le> B" unfolding B_def using i1 by (rule two_powi_le)
      finally show ?thesis .
    qed
    have Bq': "B \<le> q'"
    proof -
      have "e' + 52 = ilog2 q'" using e'1 by simp
      then show ?thesis unfolding B_def using ilog2_bounds [OF q'] by simp
    qed
    have hi: "B \<le> rnd q'"
    proof -
      have "B / 2 powi e' = 2 powi 52" unfolding B_def by (simp add: power_int_add)
      also have "\<dots> = rat_of_int (2 ^ 52)" by simp
      finally have b: "B / 2 powi e' = rat_of_int (2 ^ 52)" .
      have "B / 2 powi e' \<le> q' / 2 powi e'" using Bq' by (simp add: divide_right_mono)
      then have "round_even (B / 2 powi e') \<le> round_even (q' / 2 powi e')"
        by (rule round_even_mono)
      then have "2 ^ 52 \<le> round_even (q' / 2 powi e')" unfolding b round_even_of_int .
      then have "rat_of_int (2 ^ 52) \<le> rat_of_int (round_even (q' / 2 powi e'))"
        by (simp only: of_int_le_iff)
      then have "rat_of_int (2 ^ 52) * 2 powi e' \<le> rnd q'"
        unfolding r' by (intro mult_right_mono) simp_all
      moreover have "rat_of_int (2 ^ 52) * 2 powi e' = B"
        using b by (simp add: field_simps)
      ultimately show ?thesis by simp
    qed
    have lo: "rnd q \<le> B"
    proof -
      define n where "n = nat (e' + 52 - e)"
      have "B = 2 powi (int n + e)" unfolding B_def n_def using lt by simp
      also have "\<dots> = 2 ^ n * 2 powi e" by (simp add: power_int_add)
      finally have b: "B = rat_of_int (2 ^ n) * 2 powi e" by simp
      then have b': "B / 2 powi e = rat_of_int (2 ^ n)" by simp
      have "q / 2 powi e \<le> B / 2 powi e" using qB by (simp add: divide_right_mono)
      then have "round_even (q / 2 powi e) \<le> round_even (B / 2 powi e)"
        by (rule round_even_mono)
      then have "round_even (q / 2 powi e) \<le> 2 ^ n" unfolding b' round_even_of_int .
      then have "rat_of_int (round_even (q / 2 powi e)) \<le> rat_of_int (2 ^ n)"
        by (simp only: of_int_le_iff)
      then have "rnd q \<le> rat_of_int (2 ^ n) * 2 powi e"
        unfolding r by (intro mult_right_mono) simp_all
      then show ?thesis using b by simp
    qed
    show ?thesis using lo hi by linarith
  qed
qed

lemma rnd_minus: "rnd (- q) = - rnd q"
  by (simp add: rnd_def quantum_def round_even_minus)

lemma rnd_nonneg: "0 \<le> q \<Longrightarrow> 0 \<le> rnd q"
proof -
  assume q: "0 \<le> q"
  have "0 \<le> q / 2 powi quantum q" using q by simp
  then have "round_even 0 \<le> round_even (q / 2 powi quantum q)" by (rule round_even_mono)
  then have "0 \<le> round_even (q / 2 powi quantum q)" using round_even_of_int [of 0] by simp
  then show ?thesis by (simp add: rnd_def)
qed

lemma rnd_mono:
  assumes "q \<le> q'"
  shows "rnd q \<le> rnd q'"
proof -
  consider "0 < q" | "q \<le> 0" "0 \<le> q'" | "q' < 0" by linarith
  then show ?thesis
  proof cases
    case 1
    then show ?thesis using assms by (rule rnd_mono_pos)
  next
    case 2
    have "0 \<le> rnd (- q)" using 2(1) by (intro rnd_nonneg) simp
    then have "rnd q \<le> 0" by (simp add: rnd_minus)
    moreover have "0 \<le> rnd q'" using 2(2) by (rule rnd_nonneg)
    ultimately show ?thesis by linarith
  next
    case 3
    have "rnd (- q') \<le> rnd (- q)" using 3 assms by (intro rnd_mono_pos) simp_all
    then show ?thesis by (simp add: rnd_minus)
  qed
qed

section \<open>The operators on finite numbers\<close>

lemma to_number_val:
  assumes "q \<noteq> 0" "\<bar>q\<bar> \<le> 2 powi k" "- 1022 \<le> k" "k \<le> 1022"
  shows "is_fin (to_number q) \<and> val (to_number q) = rnd q"
proof (cases "rnd q = 0")
  case True
  then show ?thesis by (simp add: to_number_def signed_zero_def)
next
  case False
  have "\<bar>q\<bar> < 2 powi (k + 1)" using assms(2) two_powi_less [of k "k + 1"] by linarith
  then have "quantum q \<le> k - 52" using assms(1,3) by (intro quantum_le) auto
  then have "(2::rat) powi (quantum q) \<le> 2 powi k" by (intro two_powi_le) simp
  then have "\<bar>rnd q\<bar> \<le> 2 * 2 powi k"
    using rnd_error [of q] assms(2) two_powi_pos [of "quantum q"] by linarith
  then have "\<bar>rnd q\<bar> < 2 powi (k + 1 + 1)"
    using two_powi_less [of "k + 1" "k + 1 + 1"] by (simp add: two_powi_Suc)
  then have "ilog2 \<bar>rnd q\<bar> \<le> k + 1" using False by (intro ilog2_less) auto
  then have "\<not> 1024 \<le> ilog2 \<bar>rnd q\<bar>" using assms(4) by linarith
  then show ?thesis using False by (simp add: to_number_def)
qed

lemma to_number_fin:
  assumes "q \<noteq> 0" "\<bar>q\<bar> \<le> 1024"
  shows "is_fin (to_number q) \<and> val (to_number q) = rnd q"
  using to_number_val [of q 10] assms by simp

lemma to_number_exact:
  assumes q: "q = of_int m * 2 powi e" and e: "- 1074 \<le> e" "e \<le> 970" and m: "\<bar>m\<bar> < 2 ^ 53"
    and n: "q \<noteq> 0"
  shows "to_number q = Num q"
proof -
  have r: "rnd q = q" using q e(1) m by (rule rnd_exact)
  have "\<bar>q\<bar> < 2 powi (e + 52 + 1)" unfolding q using m by (rule mant_bound)
  then have "ilog2 \<bar>q\<bar> \<le> e + 52" using n by (intro ilog2_less) auto
  then have "\<not> 1024 \<le> ilog2 \<bar>q\<bar>" using e(2) by linarith
  then show ?thesis using n r by (simp add: to_number_def)
qed

lemma to_number_small:
  assumes "q \<noteq> 0" "of_int \<lfloor>q * 1024\<rfloor> = q * 1024" "\<bar>q\<bar> < 2 ^ 40"
  shows "to_number q = Num q"
proof (rule to_number_exact [where m = "\<lfloor>q * 1024\<rfloor>" and e = "- 10"])
  show "q = of_int \<lfloor>q * 1024\<rfloor> * 2 powi (- 10)"
    by (simp add: assms(2) power_int_minus)
  have "\<bar>rat_of_int \<lfloor>q * 1024\<rfloor>\<bar> < 2 ^ 53"
    using assms(3) by (simp add: assms(2) abs_mult)
  then have "rat_of_int \<bar>\<lfloor>q * 1024\<rfloor>\<bar> < rat_of_int (2 ^ 53)" by simp
  then show "\<bar>\<lfloor>q * 1024\<rfloor>\<bar> < 2 ^ 53" by (simp only: of_int_less_iff)
qed (use assms in simp_all)

lemma to_number_round:
  assumes q: "q \<noteq> 0" "2 powi k \<le> \<bar>q\<bar>" "\<bar>q\<bar> < 2 powi (k + 1)"
    and k: "- 1022 \<le> k" "k \<le> 1022"
    and n: "round_even (q / 2 powi (k - 52)) = n"
  shows "to_number q = Num (of_int n * 2 powi (k - 52))"
proof -
  have m: "max (k - 52) (- 1074) = k - 52" using k by simp
  have r: "rnd q = of_int n * 2 powi (k - 52)"
    using rnd_eval [OF q] unfolding m n .
  have "quantum q \<le> k - 52" using q(1,3) k(1) by (rule quantum_le)
  then have "(2::rat) powi (quantum q) \<le> 2 powi (k - 52)" by (rule two_powi_le)
  moreover have "(2::rat) powi (k - 52) < 2 powi k" by (rule two_powi_less) simp
  ultimately have e: "\<bar>rnd q - q\<bar> < 2 powi k / 2"
    using rnd_error [of q] two_powi_pos [of "quantum q"] by linarith
  have nz: "rnd q \<noteq> 0" using e q(2) two_powi_pos [of k] by linarith
  have p1: "(2::rat) powi (k + 1) = 2 * 2 powi k" by (rule two_powi_Suc)
  have p2: "(2::rat) powi (k + 1 + 1) = 2 * 2 powi (k + 1)" by (rule two_powi_Suc)
  have "\<bar>rnd q\<bar> < 2 powi (k + 1 + 1)"
    unfolding p2 using e q(3) two_powi_pos [of k] unfolding p1 by linarith
  then have "ilog2 \<bar>rnd q\<bar> \<le> k + 1" using nz by (intro ilog2_less) auto
  then have "\<not> 1024 \<le> ilog2 \<bar>rnd q\<bar>" using k(2) by linarith
  then show ?thesis using nz by (simp add: to_number_def r [symmetric])
qed

lemma tol_pos: "0 < tol"
  by (simp add: tol_def)

lemma tol_small: "13 * tol \<le> 1 / 1000000000" "tol \<le> 1 / 100"
  by (simp_all add: tol_def)

lemma tol_14: "7 * tol + 7 * tol \<le> 1 / 1000000000" "5 * tol + 5 * tol \<le> 1 / 1000000000"
  "7 * tol + 3 * tol \<le> 1 / 1000000000" "5 * tol + 3 * tol \<le> 1 / 1000000000"
  by (simp_all add: tol_def)

lemma approx_fin: "approx a v d \<Longrightarrow> is_fin a"
  and approx_lo: "approx a v d \<Longrightarrow> v - d \<le> val a"
  and approx_hi: "approx a v d \<Longrightarrow> val a \<le> v + d"
  by (simp_all add: approx_def)

lemma approx_trans: "approx a w e \<Longrightarrow> v - d \<le> w - e \<Longrightarrow> w + e \<le> v + d \<Longrightarrow> approx a v d"
  by (simp add: approx_def)

lemma approx_weaken: "approx a v d \<Longrightarrow> d \<le> d' \<Longrightarrow> approx a v d'"
  by (simp add: approx_def)

lemma approx_exact: "is_fin a \<Longrightarrow> approx a (val a) 0"
  by (simp add: approx_def)

lemma approx_close:
  "approx a v d \<Longrightarrow> approx b v e \<Longrightarrow> d + e \<le> k \<Longrightarrow> close_to a b k"
  unfolding approx_def close_to_def by linarith

lemma approx_signed_zero: "approx (signed_zero s) 0 tol"
  using tol_pos by (simp add: approx_def signed_zero_def)

lemma to_number_approx:
  assumes "q \<noteq> 0" "- 1024 \<le> q" "q \<le> 1024"
  shows "approx (to_number q) q tol"
proof -
  have a: "\<bar>q\<bar> \<le> 1024" using assms by linarith
  show ?thesis
    using to_number_fin [OF assms(1) a] rnd_tol [OF a] by (simp add: approx_def) linarith
qed

lemma fin_not: "is_fin a \<Longrightarrow> a \<noteq> NaN \<and> \<not> is_inf a"
  by (cases a) simp_all

lemma signed_zero_fin [simp]: "is_fin (signed_zero s)" "val (signed_zero s) = 0"
  by (simp_all add: signed_zero_def)

lemma js_add_finite:
  "is_fin a \<Longrightarrow> is_fin b \<Longrightarrow> js_add a b =
     (if val a + val b = 0 then signed_zero (negative a \<and> negative b)
      else to_number (val a + val b))"
  using fin_not [of a] fin_not [of b] by (simp add: js_add_def)

lemma js_mul_finite:
  "is_fin a \<Longrightarrow> is_fin b \<Longrightarrow> js_mul a b =
     (if val a * val b = 0 then signed_zero (negative a \<noteq> negative b)
      else to_number (val a * val b))"
  using fin_not [of a] fin_not [of b] by (simp add: js_mul_def)

lemma js_neg_fin: "is_fin a \<Longrightarrow> is_fin (js_neg a) \<and> val (js_neg a) = - val a"
  by (cases a) simp_all

lemma js_add_fin:
  assumes "is_fin a" "is_fin b" "- 1024 \<le> val a + val b" "val a + val b \<le> 1024"
  shows "approx (js_add a b) (val a + val b) tol"
  using assms fin_not [of a] fin_not [of b] approx_signed_zero to_number_approx
  by (simp add: js_add_def Let_def)

lemma js_sub_fin:
  assumes "is_fin a" "is_fin b" "- 1024 \<le> val a - val b" "val a - val b \<le> 1024"
  shows "approx (js_sub a b) (val a - val b) tol"
  using js_add_fin [of a "js_neg b"] js_neg_fin [of b] assms by (simp add: js_sub_def)

lemma js_mul_fin:
  assumes "is_fin a" "is_fin b" "- 1024 \<le> val a * val b" "val a * val b \<le> 1024"
  shows "approx (js_mul a b) (val a * val b) tol"
  using assms fin_not [of a] fin_not [of b] approx_signed_zero to_number_approx
  by (simp add: js_mul_def Let_def)

lemma js_add_val:
  assumes "is_fin a" "is_fin b" "- 1024 \<le> val a + val b" "val a + val b \<le> 1024"
  shows "is_fin (js_add a b) \<and> val (js_add a b) = rnd (val a + val b)"
proof (cases "val a + val b = 0")
  case True
  then show ?thesis using assms by (simp add: js_add_finite)
next
  case False
  have "\<bar>val a + val b\<bar> \<le> 1024" using assms by linarith
  then show ?thesis using to_number_fin [OF False] assms False by (simp add: js_add_finite)
qed

lemma js_sub_val:
  assumes "is_fin a" "is_fin b" "- 1024 \<le> val a - val b" "val a - val b \<le> 1024"
  shows "is_fin (js_sub a b) \<and> val (js_sub a b) = rnd (val a - val b)"
  using js_add_val [of a "js_neg b"] js_neg_fin [of b] assms by (simp add: js_sub_def)

lemma js_mul_val:
  assumes "is_fin a" "is_fin b" "- 1024 \<le> val a * val b" "val a * val b \<le> 1024"
  shows "is_fin (js_mul a b) \<and> val (js_mul a b) = rnd (val a * val b)"
proof (cases "val a * val b = 0")
  case True
  show ?thesis using assms by (simp add: js_mul_finite True)
next
  case False
  have "\<bar>val a * val b\<bar> \<le> 1024" using assms by linarith
  then show ?thesis using to_number_fin [OF False] assms False by (simp add: js_mul_finite)
qed

lemmas js_eval = js_add_def js_sub_def js_mul_def js_div_def signed_zero_def signed_inf_def
  to_number_small

lemmas model_defs = xp_def x1_def x2_def diff_def nullBasis_def transform_def mappedDiff_def
  bVec_def bFromX1_def bFromX2_def

lemma ORIGIN_eq: "ORIGIN = Num 10"
  by (simp add: ORIGIN_def VIEWBOX_SIZE_def js_eval)

section \<open>Error bounds for the derived vectors\<close>

lemma transform_approx:
  assumes x: "approx x vx d" and y: "approx y vy d"
    and d: "0 \<le> d" "d \<le> 1"
    and r: "- 64 \<le> vx" "vx \<le> 64" "- 64 \<le> vy" "vy \<le> 64"
  shows "approx (px (transform x y)) (vx + vy / 2) (2 * d + 3 * tol)"
    and "approx (py (transform x y)) (vx / 2 + vy / 4) (d + 3 * tol)"
proof -
  note t = tol_pos tol_small(2)
  have fx: "is_fin x" "vx - d \<le> val x" "val x \<le> vx + d" using x by (simp_all add: approx_def)
  have fy: "is_fin y" "vy - d \<le> val y" "val y \<le> vy + d" using y by (simp_all add: approx_def)
  have m1: "approx (js_mul (Num 1) x) (val x) tol"
    using js_mul_fin [of "Num 1" x] fx d r by simp
  have m2: "approx (js_mul (Num (1 / 2)) y) (val y / 2) tol"
    using js_mul_fin [of "Num (1 / 2)" y] fy d r by simp
  have m3: "approx (js_mul (Num (1 / 2)) x) (val x / 2) tol"
    using js_mul_fin [of "Num (1 / 2)" x] fx d r by simp
  have m4: "approx (js_mul (Num (1 / 4)) y) (val y / 4) tol"
    using js_mul_fin [of "Num (1 / 4)" y] fy d r by simp
  have a1: "approx (js_add (js_mul (Num 1) x) (js_mul (Num (1 / 2)) y))
      (val (js_mul (Num 1) x) + val (js_mul (Num (1 / 2)) y)) tol"
    using m1 m2 fx fy d r t unfolding approx_def by (intro js_add_fin [unfolded approx_def]) linarith+
  have a2: "approx (js_add (js_mul (Num (1 / 2)) x) (js_mul (Num (1 / 4)) y))
      (val (js_mul (Num (1 / 2)) x) + val (js_mul (Num (1 / 4)) y)) tol"
    using m3 m4 fx fy d r t unfolding approx_def by (intro js_add_fin [unfolded approx_def]) linarith+
  show "approx (px (transform x y)) (vx + vy / 2) (2 * d + 3 * tol)"
    using a1 m1 m2 fx fy d unfolding approx_def transform_def by (simp; linarith)
  show "approx (py (transform x y)) (vx / 2 + vy / 4) (d + 3 * tol)"
    using a2 m3 m4 fx fy d unfolding approx_def transform_def by (simp; linarith)
qed

lemma solution_approx:
  assumes b: "slider b" and l: "slider l"
  shows "approx (js_add b (js_mul l (js_neg (Num (1 / 2))))) (val b - val l / 2) (2 * tol)"
    and "approx (js_add (Num 0) (js_mul l (Num 1))) (val l) (2 * tol)"
proof -
  note t = tol_pos tol_small(2)
  have fb: "is_fin b" "- 4 \<le> val b" "val b \<le> 4" using b by (simp_all add: slider_def)
  have fl: "is_fin l" "- 4 \<le> val l" "val l \<le> 4" using l by (simp_all add: slider_def)
  have m1: "approx (js_mul l (js_neg (Num (1 / 2)))) (- (val l / 2)) tol"
    using js_mul_fin [of l "js_neg (Num (1 / 2))"] fl by simp
  have m2: "approx (js_mul l (Num 1)) (val l) tol"
    using js_mul_fin [of l "Num 1"] fl by simp
  note m = m1 m2
  note f = m [THEN approx_fin] and lo = m [THEN approx_lo] and hi = m [THEN approx_hi]
  have a1: "approx (js_add b (js_mul l (js_neg (Num (1 / 2)))))
      (val b + val (js_mul l (js_neg (Num (1 / 2))))) tol"
    by (rule js_add_fin [OF fb(1) f(1)]) (use lo hi fb fl t in linarith)+
  have z: "is_fin (Num 0)" "val (Num 0) = 0" by simp_all
  have a2: "approx (js_add (Num 0) (js_mul l (Num 1)))
      (val (Num 0) + val (js_mul l (Num 1))) tol"
    by (rule js_add_fin [OF z(1) f(2)]) (use lo hi fl t z(2) in linarith)+
  show "approx (js_add b (js_mul l (js_neg (Num (1 / 2))))) (val b - val l / 2) (2 * tol)"
    by (rule approx_trans [OF a1]) (use lo hi in linarith)+
  show "approx (js_add (Num 0) (js_mul l (Num 1))) (val l) (2 * tol)"
    by (rule approx_trans [OF a2]) (use lo hi z(2) in linarith)+
qed

lemma x1_approx:
  assumes "slider (bScalar st)" "slider (lambda1 st)"
  shows "approx (px (x1 st)) (val (bScalar st) - val (lambda1 st) / 2) (2 * tol)"
    and "approx (py (x1 st)) (val (lambda1 st)) (2 * tol)"
  using solution_approx [OF assms] by (simp_all add: x1_def xp_def nullBasis_def)

lemma x2_approx:
  assumes "slider (bScalar st)" "slider (lambda2 st)"
  shows "approx (px (x2 st)) (val (bScalar st) - val (lambda2 st) / 2) (2 * tol)"
    and "approx (py (x2 st)) (val (lambda2 st)) (2 * tol)"
  using solution_approx [OF assms] by (simp_all add: x2_def xp_def nullBasis_def)

lemma diff_approx:
  assumes "slider (bScalar st)" "slider (lambda1 st)" "slider (lambda2 st)"
  shows "approx (px (diff st)) ((val (lambda2 st) / 2 - val (lambda1 st) / 2)) (5 * tol)"
    and "approx (py (diff st)) (val (lambda1 st) - val (lambda2 st)) (5 * tol)"
proof -
  note t = tol_pos tol_small(2)
  have r: "- 4 \<le> val (bScalar st)" "val (bScalar st) \<le> 4" "- 4 \<le> val (lambda1 st)"
    "val (lambda1 st) \<le> 4" "- 4 \<le> val (lambda2 st)" "val (lambda2 st) \<le> 4"
    using assms by (simp_all add: slider_def)
  note a = x1_approx [OF assms(1,2)] x2_approx [OF assms(1,3)]
  note f = a [THEN approx_fin] and lo = a [THEN approx_lo] and hi = a [THEN approx_hi]
  have s1: "approx (js_sub (px (x1 st)) (px (x2 st))) (val (px (x1 st)) - val (px (x2 st))) tol"
    by (rule js_sub_fin [OF f(1) f(3)]) (use lo hi r t in linarith)+
  have s2: "approx (js_sub (py (x1 st)) (py (x2 st))) (val (py (x1 st)) - val (py (x2 st))) tol"
    by (rule js_sub_fin [OF f(2) f(4)]) (use lo hi r t in linarith)+
  have "approx (js_sub (px (x1 st)) (px (x2 st))) ((val (lambda2 st) / 2 - val (lambda1 st) / 2)) (5 * tol)"
    by (rule approx_trans [OF s1]) (use lo hi in linarith)+
  then show "approx (px (diff st)) ((val (lambda2 st) / 2 - val (lambda1 st) / 2)) (5 * tol)"
    by (simp add: diff_def)
  have "approx (js_sub (py (x1 st)) (py (x2 st))) (val (lambda1 st) - val (lambda2 st)) (5 * tol)"
    by (rule approx_trans [OF s2]) (use lo hi in linarith)+
  then show "approx (py (diff st)) (val (lambda1 st) - val (lambda2 st)) (5 * tol)"
    by (simp add: diff_def)
qed

lemma bFromX1_approx:
  assumes "slider (bScalar st)" "slider (lambda1 st)"
  shows "approx (px (bFromX1 st)) (val (bScalar st)) (7 * tol)"
    and "approx (py (bFromX1 st)) (val (bScalar st) / 2) (5 * tol)"
proof -
  note t = tol_pos tol_small
  have r: "- 4 \<le> val (bScalar st)" "val (bScalar st) \<le> 4" "- 4 \<le> val (lambda1 st)"
    "val (lambda1 st) \<le> 4"
    using assms by (simp_all add: slider_def)
  have d: "0 \<le> 2 * tol" "2 * tol \<le> 1" using t by linarith+
  have v: "- 64 \<le> val (bScalar st) - val (lambda1 st) / 2"
    "val (bScalar st) - val (lambda1 st) / 2 \<le> 64"
    "- 64 \<le> val (lambda1 st)" "val (lambda1 st) \<le> 64"
    using r by linarith+
  note m = transform_approx [OF x1_approx [OF assms] d v]
  show "approx (px (bFromX1 st)) (val (bScalar st)) (7 * tol)"
    using m(1) by (simp add: bFromX1_def)
  show "approx (py (bFromX1 st)) (val (bScalar st) / 2) (5 * tol)"
    using m(2) by (simp add: bFromX1_def diff_divide_distrib)
qed

lemma bFromX2_approx:
  assumes "slider (bScalar st)" "slider (lambda2 st)"
  shows "approx (px (bFromX2 st)) (val (bScalar st)) (7 * tol)"
    and "approx (py (bFromX2 st)) (val (bScalar st) / 2) (5 * tol)"
proof -
  note t = tol_pos tol_small
  have r: "- 4 \<le> val (bScalar st)" "val (bScalar st) \<le> 4" "- 4 \<le> val (lambda2 st)"
    "val (lambda2 st) \<le> 4"
    using assms by (simp_all add: slider_def)
  have d: "0 \<le> 2 * tol" "2 * tol \<le> 1" using t by linarith+
  have v: "- 64 \<le> val (bScalar st) - val (lambda2 st) / 2"
    "val (bScalar st) - val (lambda2 st) / 2 \<le> 64"
    "- 64 \<le> val (lambda2 st)" "val (lambda2 st) \<le> 64"
    using r by linarith+
  note m = transform_approx [OF x2_approx [OF assms] d v]
  show "approx (px (bFromX2 st)) (val (bScalar st)) (7 * tol)"
    using m(1) by (simp add: bFromX2_def)
  show "approx (py (bFromX2 st)) (val (bScalar st) / 2) (5 * tol)"
    using m(2) by (simp add: bFromX2_def diff_divide_distrib)
qed

lemma bVec_approx:
  assumes "slider (bScalar st)"
  shows "approx (px (bVec st)) (val (bScalar st)) (3 * tol)"
    and "approx (py (bVec st)) (val (bScalar st) / 2) (3 * tol)"
proof -
  have r: "is_fin (bScalar st)" "- 4 \<le> val (bScalar st)" "val (bScalar st) \<le> 4"
    using assms by (simp_all add: slider_def)
  have x: "approx (bScalar st) (val (bScalar st)) 0" using r(1) by (rule approx_exact)
  have y: "approx (Num 0) 0 0" by (simp add: approx_def)
  have v: "- 64 \<le> val (bScalar st)" "val (bScalar st) \<le> 64" using r by linarith+
  have m: "approx (px (transform (bScalar st) (Num 0))) (val (bScalar st) + 0 / 2) (2 * 0 + 3 * tol)"
    "approx (py (transform (bScalar st) (Num 0))) (val (bScalar st) / 2 + 0 / 4) (0 + 3 * tol)"
    by (rule transform_approx [OF x y _ _ v]; simp)+
  show "approx (px (bVec st)) (val (bScalar st)) (3 * tol)"
    using m(1) by (simp add: bVec_def xp_def)
  show "approx (py (bVec st)) (val (bScalar st) / 2) (3 * tol)"
    using m(2) by (simp add: bVec_def xp_def)
qed

lemma transform_twice:
  assumes f: "is_fin x" "is_fin y"
    and r: "- 16 \<le> val x" "val x \<le> 16" "- 16 \<le> val y" "val y \<le> 16"
  shows "approx (px (transform (px (transform x y)) (py (transform x y))))
           (5 / 4 * val (px (transform x y))) (1 / 10 ^ 9)"
    and "approx (py (transform (px (transform x y)) (py (transform x y))))
           (5 / 4 * val (py (transform x y))) (1 / 10 ^ 9)"
proof -
  note t = tol_pos tol_small
  define p where "p = px (transform x y)"
  define p' where "p' = py (transform x y)"
  have r64: "- 64 \<le> val x" "val x \<le> 64" "- 64 \<le> val y" "val y \<le> 64" using r by linarith+
  have a: "approx p (val x + val y / 2) (2 * 0 + 3 * tol)"
    "approx p' (val x / 2 + val y / 4) (0 + 3 * tol)"
    unfolding p_def p'_def
    by (rule transform_approx [OF approx_exact [OF f(1)] approx_exact [OF f(2)] _ _ r64]; simp)+
  note fa = a [THEN approx_fin] and lo = a [THEN approx_lo] and hi = a [THEN approx_hi]
  have p64: "- 64 \<le> val p" "val p \<le> 64" "- 64 \<le> val p'" "val p' \<le> 64"
    using lo hi r t by linarith+
  have b: "approx (px (transform p p')) (val p + val p' / 2) (2 * 0 + 3 * tol)"
    "approx (py (transform p p')) (val p / 2 + val p' / 4) (0 + 3 * tol)"
    by (rule transform_approx [OF approx_exact [OF fa(1)] approx_exact [OF fa(2)] _ _ p64]; simp)+
  have "approx (px (transform p p')) (5 / 4 * val p) (1 / 1000000000)"
    by (rule approx_trans [OF b(1)]) (use lo hi t in linarith)+
  then show "approx (px (transform (px (transform x y)) (py (transform x y))))
           (5 / 4 * val (px (transform x y))) (1 / 10 ^ 9)"
    by (simp add: p_def p'_def)
  have "approx (py (transform p p')) (5 / 4 * val p') (1 / 1000000000)"
    by (rule approx_trans [OF b(2)]) (use lo hi t in linarith)+
  then show "approx (py (transform (px (transform x y)) (py (transform x y))))
           (5 / 4 * val (py (transform x y))) (1 / 10 ^ 9)"
    by (simp add: p_def p'_def)
qed

section \<open>The image of the transform\<close>

lemma ordinary_abs_le: "ordinary y \<Longrightarrow> \<bar>val y\<bar> \<le> 2 powi 1000"
  using two_powi_pos [of 1000] unfolding ordinary_def by (elim conjE disjE) (simp_all only: abs_zero less_imp_le)

lemma js_mul_pow2:
  assumes y: "ordinary y" and j: "0 \<le> j" "j \<le> 2"
  shows "is_fin (js_mul (Num (2 powi (- j))) y)
       \<and> val (js_mul (Num (2 powi (- j))) y) = val y * 2 powi (- j)"
proof (cases "val y = 0")
  case True
  then show ?thesis using y by (simp add: js_mul_finite ordinary_def)
next
  case False
  let ?q = "val y * 2 powi (- j)"
  have f: "is_fin y" and r: "rnd (val y) = val y" and lo: "2 powi (- 1000) \<le> \<bar>val y\<bar>"
    using y False unfolding ordinary_def by blast+
  have hi: "\<bar>val y\<bar> \<le> 2 powi 1000" using y by (rule ordinary_abs_le)
  have n: "?q \<noteq> 0" using False by simp
  have "(2::rat) powi (- j) \<le> 2 powi 0" using j by (intro two_powi_le) simp
  then have p1: "(2::rat) powi (- j) \<le> 1" by simp
  have "\<bar>?q\<bar> = \<bar>val y\<bar> * 2 powi (- j)" by (simp add: abs_mult)
  also have "\<dots> \<le> \<bar>val y\<bar> * 1" using p1 by (intro mult_left_mono) simp_all
  finally have h: "\<bar>?q\<bar> \<le> 2 powi 1000" using hi by linarith
  have tn: "is_fin (to_number ?q) \<and> val (to_number ?q) = rnd ?q"
    by (rule to_number_val [OF n h]) simp_all
  have il: "- 1000 \<le> ilog2 \<bar>val y\<bar>" using lo by (rule ilog2_ge)
  have "rnd ?q = rnd (val y) * 2 powi (- j)"
    using False il j by (intro rnd_scale) simp_all
  then have "rnd ?q = ?q" by (simp only: r)
  moreover have "js_mul (Num (2 powi (- j))) y = to_number ?q"
    using f n by (simp add: js_mul_finite mult.commute)
  ultimately show ?thesis using tn by simp
qed

lemma js_mul_consts:
  assumes "ordinary y"
  shows "is_fin (js_mul (Num 1) y) \<and> val (js_mul (Num 1) y) = val y"
    and "is_fin (js_mul (Num (1 / 2)) y) \<and> val (js_mul (Num (1 / 2)) y) = val y / 2"
    and "is_fin (js_mul (Num (1 / 4)) y) \<and> val (js_mul (Num (1 / 4)) y) = val y / 4"
  using js_mul_pow2 [OF assms, of 0] js_mul_pow2 [OF assms, of 1] js_mul_pow2 [OF assms, of 2]
  by (simp_all add: power_int_minus)

lemma dyadic_sum_exact:
  assumes a: "a = of_int ma * 2 powi e" and b: "b = of_int mb * 2 powi e" and e: "- 1072 \<le> e"
    and s: "\<bar>a + b / 2\<bar> < 2 powi (e + 31)"
  shows "rnd (a + b / 2) = a + b / 2" and "rnd ((a + b / 2) / 2) = (a + b / 2) / 2"
proof -
  define M where "M = 2 * ma + mb"
  have pe: "(2::rat) powi e = 2 * 2 powi (e - 1)" using two_powi_Suc [of "e - 1"] by simp
  have s1: "a + b / 2 = of_int M * 2 powi (e - 1)" by (simp add: a b M_def pe algebra_simps)
  have pe2: "(2::rat) powi (e - 1) = 2 * 2 powi (e - 2)" using two_powi_Suc [of "e - 2"] by simp
  have s2: "(a + b / 2) / 2 = of_int M * 2 powi (e - 2)" by (simp add: s1 pe2)
  have M: "\<bar>M\<bar> < 2 ^ 53"
  proof -
    have "(2::rat) powi (e + 31) = 2 powi (32 + (e - 1))"
      by (rule arg_cong [where f = "\<lambda>k. 2 powi k"]) simp
    also have "\<dots> = 2 powi 32 * 2 powi (e - 1)" by (rule power_int_add) simp
    finally have p: "(2::rat) powi (e + 31) = 2 powi 32 * 2 powi (e - 1)" .
    have "\<bar>rat_of_int M\<bar> * 2 powi (e - 1) < 2 powi 32 * 2 powi (e - 1)"
      using s unfolding s1 p by (simp add: abs_mult)
    then have "\<bar>rat_of_int M\<bar> < 2 powi 32" by (simp only: mult_less_cancel_right_pos two_powi_pos)
    then have "rat_of_int \<bar>M\<bar> < rat_of_int (2 ^ 53)" by simp
    then show ?thesis by (simp only: of_int_less_iff)
  qed
  show "rnd (a + b / 2) = a + b / 2" using e by (intro rnd_exact [OF s1 _ M]) simp
  show "rnd ((a + b / 2) / 2) = (a + b / 2) / 2" using e by (intro rnd_exact [OF s2 _ M]) simp
qed

lemma ordinary_grid:
  assumes "ordinary y"
  shows "\<exists>m. val y = of_int m * 2 powi (- 1052)"
proof (cases "val y = 0")
  case True
  then have "val y = of_int 0 * 2 powi (- 1052)" by simp
  then show ?thesis by blast
next
  case False
  have r: "rnd (val y) = val y" and lo: "2 powi (- 1000) \<le> \<bar>val y\<bar>"
    using assms False unfolding ordinary_def by blast+
  have eq: "(- 1000 :: int) - 52 = - 1052" by simp
  show ?thesis using rnd_grid [OF r lo] unfolding eq by simp
qed

lemma abs_half_le: "\<bar>q\<bar> \<le> c \<Longrightarrow> \<bar>q / 2\<bar> \<le> (c::rat)"
  by simp

lemma abs_sum_half_le: "\<bar>a\<bar> \<le> c \<Longrightarrow> \<bar>b\<bar> \<le> c \<Longrightarrow> \<bar>a + b / 2\<bar> \<le> 2 * (c::rat)"
  by linarith

lemma transform_line:
  assumes x: "ordinary x" and y: "ordinary y"
  shows "is_fin (px (transform x y)) \<and> is_fin (py (transform x y))
       \<and> val (py (transform x y)) = val (px (transform x y)) / 2"
proof -
  let ?s = "val x + val y / 2"
  let ?h = "val x / 2 + val y / 4"
  note m = js_mul_consts [OF x] js_mul_consts [OF y]
  note f = m [THEN conjunct1] and v = m [THEN conjunct2]
  have h: "?h = ?s / 2" by simp
  show ?thesis
  proof (cases "?s = 0")
    case True
    then have "?h = 0" using h by simp
    then show ?thesis using True by (simp add: transform_def js_add_finite f v)
  next
    case False
    then have hn: "?h \<noteq> 0" using h by simp
    have px: "px (transform x y) = to_number ?s"
      using False by (simp add: transform_def js_add_finite f v)
    have "py (transform x y) = to_number ?h"
      using hn by (simp add: transform_def js_add_finite f v)
    then have py: "py (transform x y) = to_number (?s / 2)"
      by (simp only: h)
    have sn: "?s / 2 \<noteq> 0" using False by simp
    have ax: "\<bar>val x\<bar> \<le> 2 powi 1000" using x by (rule ordinary_abs_le)
    have ay: "\<bar>val y\<bar> \<le> 2 powi 1000" using y by (rule ordinary_abs_le)
    have p: "(2::rat) powi 1001 = 2 * 2 powi 1000" using two_powi_Suc [of 1000] by simp
    have b1: "\<bar>?s\<bar> \<le> 2 powi 1001" unfolding p using ax ay by (rule abs_sum_half_le)
    have b2: "\<bar>?s / 2\<bar> \<le> 2 powi 1001" using b1 by (rule abs_half_le)
    have t1: "is_fin (to_number ?s) \<and> val (to_number ?s) = rnd ?s"
      by (rule to_number_val [OF False b1]) simp_all
    have t2: "is_fin (to_number (?s / 2)) \<and> val (to_number (?s / 2)) = rnd (?s / 2)"
      by (rule to_number_val [OF sn b2]) simp_all
    have "rnd (?s / 2) = rnd ?s / 2"
    proof (cases "2 powi (- 1021) \<le> \<bar>?s\<bar>")
      case True
      then have "- 1021 \<le> ilog2 \<bar>?s\<bar>" by (rule ilog2_ge)
      then have "rnd (?s * 2 powi (- 1)) = rnd ?s * 2 powi (- 1)"
        using False by (intro rnd_scale) simp_all
      then show ?thesis by (simp add: power_int_minus)
    next
      case False
      then have small: "\<bar>?s\<bar> < 2 powi (- 1052 + 31)" by simp
      obtain ma where ma: "val x = of_int ma * 2 powi (- 1052)" using ordinary_grid [OF x] by blast
      obtain mb where mb: "val y = of_int mb * 2 powi (- 1052)" using ordinary_grid [OF y] by blast
      have "rnd ?s = ?s" "rnd (?s / 2) = ?s / 2"
        by (rule dyadic_sum_exact [OF ma mb _ small], simp)+
      then show ?thesis by simp
    qed
    then show ?thesis using t1 t2 px py by simp
  qed
qed

section \<open>The coordinate mapper\<close>

lemma toSvg_px:
  assumes "visible x"
  shows "is_fin (px (toSvg x y)) \<and> val (px (toSvg x y)) = rnd (rnd (10 + val x) * 40)"
proof -
  note t = tol_pos tol_small(2)
  have x: "is_fin x" "- 10 \<le> val x" "val x \<le> 10" using assms by (simp_all add: visible_def)
  have a: "is_fin (js_add (Num 10) x) \<and> val (js_add (Num 10) x) = rnd (10 + val x)"
    using js_add_val [of "Num 10" x] x by simp
  have b: "10 + val x - tol \<le> rnd (10 + val x)" "rnd (10 + val x) \<le> 10 + val x + tol"
    by (rule rnd_bounds; use x in linarith)+
  have m: "- 1024 \<le> rnd (10 + val x) * 40" "rnd (10 + val x) * 40 \<le> 1024"
    using b x t by linarith+
  have "is_fin (js_mul (js_add (Num 10) x) (Num 40))
      \<and> val (js_mul (js_add (Num 10) x) (Num 40)) = rnd (rnd (10 + val x) * 40)"
    using js_mul_val [of "js_add (Num 10) x" "Num 40"] a m by simp
  then show ?thesis by (simp add: toSvg_def ORIGIN_eq SCALE_def)
qed

lemma toSvg_py:
  assumes "visible y"
  shows "is_fin (py (toSvg x y)) \<and> val (py (toSvg x y)) = rnd (rnd (10 - val y) * 40)"
proof -
  note t = tol_pos tol_small(2)
  have y: "is_fin y" "- 10 \<le> val y" "val y \<le> 10" using assms by (simp_all add: visible_def)
  have a: "is_fin (js_sub (Num 10) y) \<and> val (js_sub (Num 10) y) = rnd (10 - val y)"
    using js_sub_val [of "Num 10" y] y by simp
  have b: "10 - val y - tol \<le> rnd (10 - val y)" "rnd (10 - val y) \<le> 10 - val y + tol"
    by (rule rnd_bounds; use y in linarith)+
  have m: "- 1024 \<le> rnd (10 - val y) * 40" "rnd (10 - val y) * 40 \<le> 1024"
    using b y t by linarith+
  have "is_fin (js_mul (js_sub (Num 10) y) (Num 40))
      \<and> val (js_mul (js_sub (Num 10) y) (Num 40)) = rnd (rnd (10 - val y) * 40)"
    using js_mul_val [of "js_sub (Num 10) y" "Num 40"] a m by simp
  then show ?thesis by (simp add: toSvg_def ORIGIN_eq SCALE_def)
qed

lemma scaled_bounds:
  assumes "- 20 \<le> v" "v \<le> 20"
  shows "v * 40 - 41 * tol \<le> rnd (rnd v * 40)" "rnd (rnd v * 40) \<le> v * 40 + 41 * tol"
proof -
  note t = tol_pos tol_small(2)
  have b: "v - tol \<le> rnd v" "rnd v \<le> v + tol" by (rule rnd_bounds; use assms in linarith)+
  have c: "rnd v * 40 - tol \<le> rnd (rnd v * 40)" "rnd (rnd v * 40) \<le> rnd v * 40 + tol"
    by (rule rnd_bounds; use assms b t in linarith)+
  show "v * 40 - 41 * tol \<le> rnd (rnd v * 40)" using b c by linarith
  show "rnd (rnd v * 40) \<le> v * 40 + 41 * tol" using b c by linarith
qed

lemma scaled_mono: "v \<le> w \<Longrightarrow> rnd (rnd v * 40) \<le> rnd (rnd w * 40)"
  by (intro rnd_mono mult_right_mono) simp_all

lemma scaled_strict:
  assumes "- 20 \<le> v" "w \<le> 20" "v + 1 / 1000000000 \<le> w"
  shows "rnd (rnd v * 40) < rnd (rnd w * 40)"
proof -
  have t: "82 * tol < 40 / 1000000000" by (simp add: tol_def)
  have r: "v \<le> 20" "- 20 \<le> w" using assms by linarith+
  note a = scaled_bounds [OF assms(1) r(1)] and b = scaled_bounds [OF r(2) assms(2)]
  show ?thesis using a(2) b(1) assms(3) t by linarith
qed

section \<open>Concrete evaluations\<close>

lemma scenario1_x1:
  "x1 \<lparr>bScalar = Num 3, lambda1 = Num 1, lambda2 = Num (- 2)\<rparr> = \<lparr>px = Num (5 / 2), py = Num 1\<rparr>"
  by (simp add: x1_def xp_def nullBasis_def js_eval)

lemma scenario1_x2:
  "x2 \<lparr>bScalar = Num 3, lambda1 = Num 1, lambda2 = Num (- 2)\<rparr> = \<lparr>px = Num 4, py = Num (- 2)\<rparr>"
  by (simp add: x2_def xp_def nullBasis_def js_eval)

lemma scenario1_diff:
  "diff \<lparr>bScalar = Num 3, lambda1 = Num 1, lambda2 = Num (- 2)\<rparr>
     = \<lparr>px = Num (- (3 / 2)), py = Num 3\<rparr>"
  by (simp add: diff_def scenario1_x1 scenario1_x2 js_eval)

lemma scenario1_mappedDiff:
  "mappedDiff \<lparr>bScalar = Num 3, lambda1 = Num 1, lambda2 = Num (- 2)\<rparr> = \<lparr>px = Num 0, py = Num 0\<rparr>"
  by (simp add: mappedDiff_def scenario1_diff transform_def js_eval)

lemma scenario3_x1:
  "x1 \<lparr>bScalar = Num (- 4), lambda1 = Num 4, lambda2 = Num 4\<rparr> = \<lparr>px = Num (- 6), py = Num 4\<rparr>"
  by (simp add: x1_def xp_def nullBasis_def js_eval)

lemma scenario3_x2:
  "x2 \<lparr>bScalar = Num (- 4), lambda1 = Num 4, lambda2 = Num 4\<rparr> = \<lparr>px = Num (- 6), py = Num 4\<rparr>"
  by (simp add: x2_def xp_def nullBasis_def js_eval)

lemma transform_1_0: "transform (Num 1) (Num 0) = \<lparr>px = Num 1, py = Num (1 / 2)\<rparr>"
  by (simp add: transform_def js_eval)

lemma transform_1_half: "transform (Num 1) (Num (1 / 2)) = \<lparr>px = Num (5 / 4), py = Num (5 / 8)\<rparr>"
  by (simp add: transform_def js_eval)

section \<open>The claims\<close>

text \<open>
  C3. Applying the fixed matrix \<open>A = [[1, 0.5], [0.5, 0.25]]\<close> to the fixed null-space basis
  vector \<open>nullBasis = (- 0.5, 1)\<close> yields exactly \<open>(0, 0)\<close>, with no tolerance.
\<close>

theorem nullBasis_in_null_space:
  "nullBasis = \<lparr>px = Num (- (1 / 2)), py = Num 1\<rparr>
   \<and> transform (px nullBasis) (py nullBasis) = \<lparr>px = Num 0, py = Num 0\<rparr>"
  by (simp add: nullBasis_def transform_def js_eval)

text \<open>
  C6. With \<open>bScalar = 3\<close>, \<open>lambda1 = 1\<close>, \<open>lambda2 = - 2\<close> the solution model computes
  \<open>xp = (3, 0)\<close>, \<open>x1 = (2.5, 1)\<close>, \<open>x2 = (4, - 2)\<close>, \<open>diff = (- 1.5, 3)\<close> and
  \<open>transform diff = (0, 0)\<close>.
\<close>

theorem scenario_1:
  "xp \<lparr>bScalar = Num 3, lambda1 = Num 1, lambda2 = Num (- 2)\<rparr> = \<lparr>px = Num 3, py = Num 0\<rparr>
   \<and> x1 \<lparr>bScalar = Num 3, lambda1 = Num 1, lambda2 = Num (- 2)\<rparr> = \<lparr>px = Num (5 / 2), py = Num 1\<rparr>
   \<and> x2 \<lparr>bScalar = Num 3, lambda1 = Num 1, lambda2 = Num (- 2)\<rparr> = \<lparr>px = Num 4, py = Num (- 2)\<rparr>
   \<and> diff \<lparr>bScalar = Num 3, lambda1 = Num 1, lambda2 = Num (- 2)\<rparr>
       = \<lparr>px = Num (- (3 / 2)), py = Num 3\<rparr>
   \<and> mappedDiff \<lparr>bScalar = Num 3, lambda1 = Num 1, lambda2 = Num (- 2)\<rparr>
       = \<lparr>px = Num 0, py = Num 0\<rparr>"
  by (simp add: xp_def scenario1_x1 scenario1_x2 scenario1_diff scenario1_mappedDiff)

text \<open>
  C7. At the boundary values \<open>bScalar = - 4\<close>, \<open>lambda1 = 4\<close>, \<open>lambda2 = 4\<close> the model computes
  \<open>x1 = x2 = (- 6, 4)\<close> and \<open>diff = (0, 0)\<close>: finite numbers, no special case.
\<close>

theorem scenario_3:
  "x1 \<lparr>bScalar = Num (- 4), lambda1 = Num 4, lambda2 = Num 4\<rparr> = \<lparr>px = Num (- 6), py = Num 4\<rparr>
   \<and> x2 \<lparr>bScalar = Num (- 4), lambda1 = Num 4, lambda2 = Num 4\<rparr> = \<lparr>px = Num (- 6), py = Num 4\<rparr>
   \<and> diff \<lparr>bScalar = Num (- 4), lambda1 = Num 4, lambda2 = Num 4\<rparr> = \<lparr>px = Num 0, py = Num 0\<rparr>"
  by (simp add: diff_def scenario3_x1 scenario3_x2 js_eval)

text \<open>
  C8. Each setter sets exactly one of the three scalars of the state to the supplied value
  and leaves the other two unchanged.
\<close>

theorem setters_frame:
  "bScalar (setBScalar v st) = v \<and> lambda1 (setBScalar v st) = lambda1 st
     \<and> lambda2 (setBScalar v st) = lambda2 st
   \<and> lambda1 (setLambda1 v st) = v \<and> bScalar (setLambda1 v st) = bScalar st
     \<and> lambda2 (setLambda1 v st) = lambda2 st
   \<and> lambda2 (setLambda2 v st) = v \<and> bScalar (setLambda2 v st) = bScalar st
     \<and> lambda1 (setLambda2 v st) = lambda1 st"
  by (simp add: setBScalar_def setLambda1_def setLambda2_def)

text \<open>
  C10. The initial state is \<open>bScalar = 3\<close>, \<open>lambda1 = 1\<close>, \<open>lambda2 = - 2\<close>, so the first render
  shows \<open>xp = (3, 0)\<close>, \<open>x1 = (2.5, 1)\<close>, \<open>x2 = (4, - 2)\<close>.
\<close>

theorem initial_render:
  "initial_state = \<lparr>bScalar = Num 3, lambda1 = Num 1, lambda2 = Num (- 2)\<rparr>
   \<and> xp initial_state = \<lparr>px = Num 3, py = Num 0\<rparr>
   \<and> x1 initial_state = \<lparr>px = Num (5 / 2), py = Num 1\<rparr>
   \<and> x2 initial_state = \<lparr>px = Num 4, py = Num (- 2)\<rparr>"
  by (simp add: initial_state_def xp_def scenario1_x1 scenario1_x2)

end
